theory Spec2Isabelle
  imports Complex_Main "HOL-Library.Log_Nat" "HOL-Library.Multiset"
begin

section \<open>JavaScript numbers\<close>

text \<open>
  Every \<^verbatim>\<open>number\<close> of the program is an IEEE 754 binary64 value. A finite
  non-zero double is written \<open>Fin q\<close> with \<open>q\<close> its exact rational value, \<open>Fin 0\<close> is
  the positive zero and \<open>NZero\<close> the negative one. Every arithmetic operation computes
  the exact rational result and rounds it to the nearest double, ties to the even
  significand, overflowing to an infinity from \<open>2 ^ 1024\<close> on.
\<close>

datatype jsnum = NaN | PInf | NInf | NZero | Fin rat

text \<open>The binary exponent of a positive rational \<open>a / b\<close>: the \<open>e\<close> with
  \<open>2 ^ e \<le> a / b < 2 ^ (e + 1)\<close>.\<close>

definition flog2 :: "rat \<Rightarrow> int" where
  "flog2 m =
     (case quotient_of m of
        (a, b) \<Rightarrow> if b \<le> a then bitlen (a div b) - 1 else - bitlen ((b - 1) div a))"

definition pow2 :: "int \<Rightarrow> rat" where
  "pow2 k = (if 0 \<le> k then of_int (2 ^ nat k) else 1 / of_int (2 ^ nat (- k)))"

definition ulp_exp :: "rat \<Rightarrow> int" where
  "ulp_exp m = max (flog2 m) (- 1022) - 52"

definition round_half_even :: "rat \<Rightarrow> int" where
  "round_half_even x =
     (let n = \<lfloor>x\<rfloor>; r = x - of_int n
      in if r < 1 / 2 then n else if 1 / 2 < r then n + 1 else if even n then n else n + 1)"

definition round_mag :: "rat \<Rightarrow> rat" where
  "round_mag m = (let u = pow2 (ulp_exp m) in of_int (round_half_even (m / u)) * u)"

definition signed_zero :: "bool \<Rightarrow> jsnum" where
  "signed_zero neg = (if neg then NZero else Fin 0)"

definition signed_inf :: "bool \<Rightarrow> jsnum" where
  "signed_inf neg = (if neg then NInf else PInf)"

definition round_double :: "rat \<Rightarrow> jsnum" where
  "round_double q =
     (let r = round_mag \<bar>q\<bar>
      in if 1024 \<le> flog2 r then signed_inf (q < 0)
         else if r = 0 then signed_zero (q < 0)
         else Fin (if q < 0 then - r else r))"

fun sign_bit :: "jsnum \<Rightarrow> bool" where
  "sign_bit NInf = True"
| "sign_bit NZero = True"
| "sign_bit (Fin q) = (q < 0)"
| "sign_bit _ = False"

fun val :: "jsnum \<Rightarrow> rat" where
  "val (Fin q) = q"
| "val _ = 0"

definition is_inf :: "jsnum \<Rightarrow> bool" where
  "is_inf x = (x = PInf \<or> x = NInf)"

definition is_zero :: "jsnum \<Rightarrow> bool" where
  "is_zero x = (x = NZero \<or> x = Fin 0)"

definition jadd :: "jsnum \<Rightarrow> jsnum \<Rightarrow> jsnum" where
  "jadd x y =
     (if x = NaN \<or> y = NaN then NaN
      else if is_inf x then (if is_inf y \<and> x \<noteq> y then NaN else x)
      else if is_inf y then y
      else let s = val x + val y
           in if s = 0 then signed_zero (sign_bit x \<and> sign_bit y) else round_double s)"

definition jneg :: "jsnum \<Rightarrow> jsnum" where
  "jneg x = (case x of NaN \<Rightarrow> NaN | PInf \<Rightarrow> NInf | NInf \<Rightarrow> PInf | NZero \<Rightarrow> Fin 0
             | Fin q \<Rightarrow> if q = 0 then NZero else Fin (- q))"

definition jsub :: "jsnum \<Rightarrow> jsnum \<Rightarrow> jsnum" where
  "jsub x y = jadd x (jneg y)"

definition jmul :: "jsnum \<Rightarrow> jsnum \<Rightarrow> jsnum" where
  "jmul x y =
     (if x = NaN \<or> y = NaN then NaN
      else if is_inf x \<or> is_inf y
        then (if is_zero x \<or> is_zero y then NaN else signed_inf (sign_bit x \<noteq> sign_bit y))
      else let p = val x * val y
           in if p = 0 then signed_zero (sign_bit x \<noteq> sign_bit y) else round_double p)"

definition jdiv :: "jsnum \<Rightarrow> jsnum \<Rightarrow> jsnum" where
  "jdiv x y =
     (if x = NaN \<or> y = NaN then NaN
      else if is_inf x then (if is_inf y then NaN else signed_inf (sign_bit x \<noteq> sign_bit y))
      else if is_inf y then signed_zero (sign_bit x \<noteq> sign_bit y)
      else if is_zero y
        then (if is_zero x then NaN else signed_inf (sign_bit x \<noteq> sign_bit y))
      else let q = val x / val y
           in if q = 0 then signed_zero (sign_bit x \<noteq> sign_bit y) else round_double q)"

text \<open>The relational operators: every comparison with \<open>NaN\<close> is false, the two zeros
  compare equal.\<close>

fun jlt :: "jsnum \<Rightarrow> jsnum \<Rightarrow> bool" where
  "jlt NaN _ = False"
| "jlt _ NaN = False"
| "jlt PInf _ = False"
| "jlt _ PInf = True"
| "jlt _ NInf = False"
| "jlt NInf _ = True"
| "jlt x y = (val x < val y)"

definition jge :: "jsnum \<Rightarrow> jsnum \<Rightarrow> bool" where
  "jge x y = (x \<noteq> NaN \<and> y \<noteq> NaN \<and> \<not> jlt x y)"

definition jeq :: "jsnum \<Rightarrow> jsnum \<Rightarrow> bool" where
  "jeq x y = (x \<noteq> NaN \<and> y \<noteq> NaN \<and> (x = y \<or> (is_zero x \<and> is_zero y)))"

text \<open>A value is a double when rounding leaves it alone.\<close>

definition is_double :: "jsnum \<Rightarrow> bool" where
  "is_double x = (case x of Fin q \<Rightarrow> round_double q = Fin q | _ \<Rightarrow> True)"


section \<open>Values, truthiness and property lookup\<close>

text \<open>
  What \<^verbatim>\<open>this.promoCodes[key]\<close> can yield: \<^verbatim>\<open>undefined\<close>, a number, or an
  object (a function counts as one). A plain object literal inherits from
  \<^verbatim>\<open>Object.prototype\<close>, so a key that is not an own property is looked up there
  before the access gives \<^verbatim>\<open>undefined\<close>.
\<close>

datatype jsval = Undefined | Num jsnum | Obj

definition object_prototype_keys :: "string list" where
  "object_prototype_keys =
     [''constructor'', ''hasOwnProperty'', ''isPrototypeOf'', ''propertyIsEnumerable'',
      ''toLocaleString'', ''toString'', ''valueOf'', ''__proto__'', ''__defineGetter__'',
      ''__defineSetter__'', ''__lookupGetter__'', ''__lookupSetter__'']"

definition get_property :: "(string \<times> jsnum) list \<Rightarrow> string \<Rightarrow> jsval" where
  "get_property obj key =
     (case map_of obj key of
        Some n \<Rightarrow> Num n
      | None \<Rightarrow> if key \<in> set object_prototype_keys then Obj else Undefined)"

fun truthy :: "jsval \<Rightarrow> bool" where
  "truthy Undefined = False"
| "truthy (Num n) = (n \<noteq> NaN \<and> \<not> is_zero n)"
| "truthy Obj = True"

definition js_or :: "jsval \<Rightarrow> jsval \<Rightarrow> jsval" where
  "js_or a b = (if truthy a then a else b)"

fun to_number :: "jsval \<Rightarrow> jsnum" where
  "to_number Undefined = NaN"
| "to_number (Num n) = n"
| "to_number Obj = NaN"

text \<open>\<^verbatim>\<open>s || d\<close> on an optional string: an absent and an empty string are falsy.\<close>

definition str_or :: "string option \<Rightarrow> string \<Rightarrow> string" where
  "str_or s d = (case s of None \<Rightarrow> d | Some t \<Rightarrow> if t = [] then d else t)"

text \<open>\<^verbatim>\<open>xs.reduce(f, init)\<close>: a left-to-right accumulation.\<close>

fun reduce :: "'a list \<Rightarrow> ('b \<Rightarrow> 'a \<Rightarrow> 'b) \<Rightarrow> 'b \<Rightarrow> 'b" where
  "reduce [] f acc = acc"
| "reduce (x # xs) f acc = reduce xs f (f acc x)"

section \<open>The cart and the promotion formulas\<close>

record CartItem =
  productId :: string
  name :: string
  price :: jsnum
  quantity :: jsnum

record Cart =
  items :: "CartItem list"
  promoCode :: "string option"

text \<open>The interface \<^verbatim>\<open>PromotionFormula\<close> has the single method
  \<^verbatim>\<open>process(cart): number\<close>; an object implementing it is the function from carts to
  numbers that its \<^verbatim>\<open>process\<close> computes, with the constructor arguments applied.\<close>

type_synonym PromotionFormula = "Cart \<Rightarrow> jsnum"

text \<open>The local \<^verbatim>\<open>total\<close> of \<^verbatim>\<open>CartTotalFormula.process\<close>.\<close>

definition CartTotalFormula_total :: "Cart \<Rightarrow> jsnum" where
  "CartTotalFormula_total cart =
     reduce (items cart) (\<lambda>sum item. jadd sum (jmul (price item) (quantity item))) (Fin 0)"

definition CartTotalFormula :: "jsnum \<Rightarrow> jsnum \<Rightarrow> PromotionFormula" where
  "CartTotalFormula threshold discountPercent cart =
     (let total = CartTotalFormula_total cart
      in if jge total threshold then jmul total (jdiv discountPercent (Fin 100)) else Fin 0)"

definition ProductFormula :: "string \<Rightarrow> jsnum \<Rightarrow> PromotionFormula" where
  "ProductFormula this_productId fixedDiscount cart =
     (case List.find (\<lambda>item. productId item = this_productId) (items cart) of
        Some item \<Rightarrow> jmul fixedDiscount (quantity item)
      | None \<Rightarrow> Fin 0)"

definition promoCodes :: "(string \<times> jsnum) list" where
  "promoCodes = [(''SUMMER10'', Fin 10), (''VIP20'', Fin 20)]"

text \<open>The local \<^verbatim>\<open>percent\<close> and \<^verbatim>\<open>total\<close> of \<^verbatim>\<open>PromoCodeFormula.process\<close>.\<close>

definition PromoCodeFormula_percent :: "Cart \<Rightarrow> jsval" where
  "PromoCodeFormula_percent cart =
     js_or (get_property promoCodes (str_or (promoCode cart) [])) (Num (Fin 0))"

definition PromoCodeFormula_total :: "Cart \<Rightarrow> jsnum" where
  "PromoCodeFormula_total cart =
     reduce (items cart) (\<lambda>sum item. jadd sum (jmul (price item) (quantity item))) (Fin 0)"

definition PromoCodeFormula :: PromotionFormula where
  "PromoCodeFormula cart =
     (let percent = PromoCodeFormula_percent cart;
          total = PromoCodeFormula_total cart
      in jmul total (jdiv (to_number percent) (Fin 100)))"

section \<open>The promotion processor\<close>

record Result =
  total :: jsnum
  discount :: jsnum
  final :: jsnum

definition discountCalculation :: "PromotionFormula list \<Rightarrow> Cart \<Rightarrow> jsnum" where
  "discountCalculation Formulas cart =
     reduce Formulas (\<lambda>sum Formula. jadd sum (Formula cart)) (Fin 0)"

text \<open>The local \<^verbatim>\<open>total\<close> of \<^verbatim>\<open>processDiscount\<close>.\<close>

definition processDiscount_total :: "Cart \<Rightarrow> jsnum" where
  "processDiscount_total cart =
     reduce (items cart) (\<lambda>sum item. jadd sum (jmul (price item) (quantity item))) (Fin 0)"

definition processDiscount :: "PromotionFormula list \<Rightarrow> Cart \<Rightarrow> Result" where
  "processDiscount Formulas cart =
     (let total = processDiscount_total cart;
          discount = discountCalculation Formulas cart
      in \<lparr>total = total, discount = discount, final = jsub total discount\<rparr>)"

subsection \<open>The sample data of the source file\<close>

definition cart :: Cart where
  "cart =
     \<lparr>items =
        [\<lparr>productId = ''A1'', name = ''Shoes'', price = Fin 100, quantity = Fin 2\<rparr>,
         \<lparr>productId = ''B2'', name = ''Hat'', price = Fin 50, quantity = Fin 1\<rparr>],
      promoCode = Some ''VIP20''\<rparr>"

definition Formulas :: "PromotionFormula list" where
  "Formulas = [CartTotalFormula (Fin 150) (Fin 5), ProductFormula ''A1'' (Fin 10), PromoCodeFormula]"

definition result :: Result where
  "result = processDiscount Formulas cart"


subsection \<open>Further carts\<close>

text \<open>Three items priced \<^verbatim>\<open>0.1\<close>, \<^verbatim>\<open>0.2\<close> and \<^verbatim>\<open>0.3\<close> (a number literal denotes the
  double nearest to it), and the same items in the opposite order.\<close>

definition tenths_cart :: Cart where
  "tenths_cart =
     \<lparr>items =
        [\<lparr>productId = ''P1'', name = ''Pen'', price = round_double (1 / 10), quantity = Fin 1\<rparr>,
         \<lparr>productId = ''P2'', name = ''Pad'', price = round_double (2 / 10), quantity = Fin 1\<rparr>,
         \<lparr>productId = ''P3'', name = ''Ink'', price = round_double (3 / 10), quantity = Fin 1\<rparr>],
      promoCode = None\<rparr>"

definition tenths_cart_reversed :: Cart where
  "tenths_cart_reversed = tenths_cart\<lparr>items := rev (items tenths_cart)\<rparr>"

text \<open>A cart that lists the product \<^verbatim>\<open>A1\<close> twice.\<close>

definition duplicate_cart :: Cart where
  "duplicate_cart =
     \<lparr>items =
        [\<lparr>productId = ''B2'', name = ''Hat'', price = Fin 50, quantity = Fin 1\<rparr>,
         \<lparr>productId = ''A1'', name = ''Shoes'', price = Fin 100, quantity = Fin 2\<rparr>,
         \<lparr>productId = ''A1'', name = ''Shoes'', price = Fin 100, quantity = Fin 5\<rparr>],
      promoCode = None\<rparr>"

text \<open>The sample cart with every unit price lowered to \<open>1\<close> and the names changed.\<close>

definition cheap_cart :: Cart where
  "cheap_cart =
     \<lparr>items =
        [\<lparr>productId = ''A1'', name = ''Laces'', price = Fin 1, quantity = Fin 2\<rparr>,
         \<lparr>productId = ''B2'', name = ''Pin'', price = Fin 1, quantity = Fin 1\<rparr>],
      promoCode = Some ''VIP20''\<rparr>"

subsection \<open>The sum of the spec\<close>

text \<open>The spec's \<open>\<Sigma> price \<times> quantity\<close> over the items of a cart: the products are added
  in list order, starting from \<open>0\<close>, each operation rounded to a double.\<close>

definition line_value :: "CartItem \<Rightarrow> jsnum" where
  "line_value item = jmul (price item) (quantity item)"

definition sum_list_js :: "jsnum list \<Rightarrow> jsnum" where
  "sum_list_js xs = foldl jadd (Fin 0) xs"

definition cartTotal :: "Cart \<Rightarrow> jsnum" where
  "cartTotal c = sum_list_js (map line_value (items c))"

text \<open>The same sum in exact arithmetic, for carts whose numbers are finite, and the
  numbers with an integer value.\<close>

definition exact_value :: "CartItem \<Rightarrow> rat" where
  "exact_value item = val (price item) * val (quantity item)"

definition is_int_num :: "jsnum \<Rightarrow> bool" where
  "is_int_num x = (case x of Fin q \<Rightarrow> q = of_int \<lfloor>q\<rfloor> | _ \<Rightarrow> False)"

section \<open>Rounding\<close>

text \<open>Powers of two and the binary exponent.\<close>

lemma pow2_powi: "pow2 k = 2 powi k"
  by (simp add: pow2_def power_int_def field_simps)

lemma pow2_pos: "0 < pow2 k"
  by (simp add: pow2_powi)

lemma pow2_add: "pow2 (a + b) = pow2 a * pow2 b"
  by (simp add: pow2_powi power_int_add)

lemma pow2_mono: "a \<le> b \<Longrightarrow> pow2 a \<le> pow2 b"
  by (simp add: pow2_powi power_int_increasing)

lemma pow2_strict_mono: "a < b \<Longrightarrow> pow2 a < pow2 b"
  by (simp add: pow2_powi power_int_strict_increasing)

lemma pow2_le_iff: "pow2 a \<le> pow2 b \<longleftrightarrow> a \<le> b"
  using pow2_mono [of a b] pow2_strict_mono [of b a] by (auto simp: not_le [symmetric])

lemma pow2_less_iff: "pow2 a < pow2 b \<longleftrightarrow> a < b"
  using pow2_mono [of b a] pow2_strict_mono [of a b] by (auto simp: not_less [symmetric])

lemma pow2_of_nat: "0 \<le> k \<Longrightarrow> pow2 k = of_int (2 ^ nat k)"
  by (simp add: pow2_def)

lemma pow2_neg: "k < 0 \<Longrightarrow> pow2 k = 1 / of_int (2 ^ nat (- k))"
  by (simp add: pow2_def)

lemma div_bounds:
  fixes x a :: int
  assumes "0 < a"
  shows "(x div a) * a \<le> x" and "x < (x div a + 1) * a"
proof -
  have e: "a * (x div a) + x mod a = x" by simp
  have p: "0 \<le> x mod a" "x mod a < a" using assms by simp_all
  from e p have "a * (x div a) \<le> x" by linarith
  then show "(x div a) * a \<le> x" by (simp add: mult.commute)
  from e p have "x < a * (x div a) + a" by linarith
  then show "x < (x div a + 1) * a" by (simp add: algebra_simps)
qed

lemma flog2_bounds:
  assumes "0 < m"
  shows "pow2 (flog2 m) \<le> m" and "m < pow2 (flog2 m + 1)"
proof -
  obtain a b where q: "quotient_of m = (a, b)" by force
  then have b: "0 < b" and m: "m = of_int a / of_int b"
    by (simp_all add: quotient_of_denom_pos quotient_of_div)
  with assms have a: "0 < a"
    by (simp add: zero_less_divide_iff)
  have "pow2 (flog2 m) \<le> m \<and> m < pow2 (flog2 m + 1)"
  proof (cases "b \<le> a")
    case True
    define n where "n = a div b"
    define L where "L = bitlen n"
    have n: "n = \<lfloor>m\<rfloor>" by (simp add: n_def m floor_divide_of_int_eq)
    have n0: "0 < n" using True b by (simp add: n_def pos_imp_zdiv_pos_iff)
    from bitlen_bounds [OF n0] have lo: "2 ^ nat (L - 1) \<le> n" and hi: "n < 2 ^ nat L"
      by (simp_all add: L_def)
    have L1: "1 \<le> L" using n0 bitlen_eq_zero_iff [of n] bitlen_nonneg [of n] by (simp add: L_def)
    have f: "flog2 m = L - 1" using True by (simp add: flog2_def q n_def L_def)
    have "pow2 (L - 1) = of_int (2 ^ nat (L - 1))" using L1 by (simp add: pow2_of_nat)
    also have "\<dots> \<le> of_int n" using lo by (simp only: of_int_le_iff)
    also have "\<dots> \<le> m" by (simp add: n)
    finally have 1: "pow2 (flog2 m) \<le> m" by (simp add: f)
    have "m < of_int (n + 1)" using floor_correct [of m] by (simp add: n)
    also have "\<dots> \<le> of_int (2 ^ nat L)" using hi by (simp only: of_int_le_iff)
    also have "\<dots> = pow2 L" using L1 by (simp add: pow2_of_nat)
    finally have "m < pow2 (flog2 m + 1)" by (simp add: f)
    with 1 show ?thesis by simp
  next
    case False
    define k where "k = (b - 1) div a"
    define L where "L = bitlen k"
    have ab: "a \<le> b - 1" using False by simp
    have k0: "0 < k" using ab a by (simp add: k_def pos_imp_zdiv_pos_iff)
    from bitlen_bounds [OF k0] have lo: "2 ^ nat (L - 1) \<le> k" and hi: "k < 2 ^ nat L"
      by (simp_all add: L_def)
    have L1: "1 \<le> L" using k0 bitlen_eq_zero_iff [of k] bitlen_nonneg [of k] by (simp add: L_def)
    have f: "flog2 m = - L" using False by (simp add: flog2_def q k_def L_def)
    from div_bounds [OF a, of "b - 1"] have d1: "k * a \<le> b - 1" and d2: "b - 1 < (k + 1) * a"
      by (simp_all add: k_def)
    have "(k + 1) * a \<le> 2 ^ nat L * a" using hi a by (intro mult_right_mono) simp_all
    with d2 have i1: "b \<le> 2 ^ nat L * a" by linarith
    have "2 ^ nat (L - 1) * a \<le> k * a" using lo a by (intro mult_right_mono) simp_all
    with d1 have i2: "2 ^ nat (L - 1) * a < b" by linarith
    have "(of_int b :: rat) \<le> of_int (2 ^ nat L * a)" using i1 by (simp only: of_int_le_iff)
    then have 1: "pow2 (- L) \<le> m" using L1 b
      by (simp add: pow2_neg m field_simps)
    have "(of_int (2 ^ nat (L - 1) * a) :: rat) < of_int b" using i2 by (simp only: of_int_less_iff)
    then have 2: "m < pow2 (- L + 1)" using L1 b
      by (cases "L = 1") (simp_all add: pow2_neg pow2_of_nat m field_simps)
    from 1 2 show ?thesis by (simp add: f)
  qed
  then show "pow2 (flog2 m) \<le> m" and "m < pow2 (flog2 m + 1)" by simp_all
qed

lemma flog2_unique:
  assumes "pow2 e \<le> m" and "m < pow2 (e + 1)"
  shows "flog2 m = e"
proof -
  have m: "0 < m" using assms(1) pow2_pos [of e] by linarith
  from flog2_bounds [OF m] assms have "pow2 (flog2 m) < pow2 (e + 1)" "pow2 e < pow2 (flog2 m + 1)"
    by linarith+
  then show ?thesis by (simp add: pow2_less_iff)
qed


lemma round_half_even_of_int: "round_half_even (of_int n) = n"
  by (simp add: round_half_even_def)

lemma round_half_even_nonneg: "0 \<le> x \<Longrightarrow> 0 \<le> round_half_even x"
  by (auto simp: round_half_even_def Let_def)

lemma round_half_even_le:
  assumes "x \<le> of_int N"
  shows "round_half_even x \<le> N"
proof -
  have fl: "\<lfloor>x\<rfloor> \<le> N" using assms by (simp add: floor_le_iff)
  show ?thesis
  proof (cases "x = of_int \<lfloor>x\<rfloor>")
    case True
    then have "round_half_even x = \<lfloor>x\<rfloor>"
      by (metis round_half_even_of_int)
    with fl show ?thesis by simp
  next
    case False
    then have "of_int \<lfloor>x\<rfloor> < x" using of_int_floor_le [of x] by linarith
    with assms have "(of_int \<lfloor>x\<rfloor> :: rat) < of_int N" by linarith
    then have "\<lfloor>x\<rfloor> < N" by (simp only: of_int_less_iff)
    then show ?thesis by (auto simp: round_half_even_def Let_def)
  qed
qed

lemma ulp_exp_ge: "- 1074 \<le> ulp_exp m"
  by (simp add: ulp_exp_def)

lemma round_mag_zero: "round_mag 0 = 0"
  by (simp add: round_mag_def round_half_even_def)

lemma round_mag_shape:
  assumes "0 < m"
  shows "\<exists>k. round_mag m = of_int k * pow2 (ulp_exp m) \<and> 0 \<le> k \<and> k \<le> 2 ^ 53"
proof -
  define u where "u = pow2 (ulp_exp m)"
  have u: "0 < u" by (simp add: u_def pow2_pos)
  have "flog2 m + 1 \<le> ulp_exp m + 53" by (simp add: ulp_exp_def)
  then have "pow2 (flog2 m + 1) \<le> pow2 (ulp_exp m + 53)" by (rule pow2_mono)
  also have "\<dots> = u * of_int (2 ^ 53)" by (simp add: pow2_add u_def pow2_of_nat)
  finally have "m < u * of_int (2 ^ 53)" using flog2_bounds(2) [OF assms] by linarith
  then have "m / u \<le> of_int (2 ^ 53)" using u by (simp add: field_simps)
  then have "round_half_even (m / u) \<le> 2 ^ 53" by (rule round_half_even_le)
  moreover have "0 \<le> round_half_even (m / u)" using assms u by (simp add: round_half_even_nonneg)
  ultimately show ?thesis by (auto simp: round_mag_def Let_def u_def)
qed

lemma round_mag_fixed:
  assumes k: "0 < k" "k \<le> 2 ^ 53" and j: "- 1074 \<le> j"
  shows "round_mag (of_int k * pow2 j) = of_int k * pow2 j"
proof -
  define x where "x = of_int k * pow2 j"
  define t where "t = ulp_exp x"
  have x: "0 < x" using k by (simp add: x_def pow2_pos)
  have "\<exists>i. x = of_int i * pow2 t"
  proof (cases "t \<le> j")
    case True
    then have "pow2 j = pow2 (j - t) * pow2 t" by (simp flip: pow2_add)
    also have "pow2 (j - t) = of_int (2 ^ nat (j - t))" using True by (simp add: pow2_of_nat)
    finally have "x = of_int (k * 2 ^ nat (j - t)) * pow2 t" by (simp add: x_def)
    then show ?thesis by blast
  next
    case False
    with j have f: "flog2 x = t + 52" by (simp add: t_def ulp_exp_def max_def split: if_splits)
    have "(of_int k :: rat) \<le> of_int (2 ^ 53)" using k(2) by (simp only: of_int_le_iff)
    then have "x \<le> of_int (2 ^ 53) * pow2 j"
      unfolding x_def using pow2_pos [of j] by (intro mult_right_mono) simp_all
    also have "\<dots> = pow2 (j + 53)" by (simp add: pow2_add pow2_of_nat)
    finally have up: "x \<le> pow2 (j + 53)" .
    with flog2_bounds(1) [OF x] have "pow2 (flog2 x) \<le> pow2 (j + 53)" by linarith
    then have "flog2 x \<le> j + 53" by (simp add: pow2_le_iff)
    with f False have t: "t = j + 1" by simp
    with f have "flog2 x = j + 53" by simp
    with flog2_bounds(1) [OF x] have "pow2 (j + 53) \<le> x" by simp
    with up have "x = pow2 (j + 53)" by (rule antisym)
    also have "\<dots> = of_int (2 ^ 52) * pow2 t" by (simp add: t pow2_add pow2_of_nat)
    finally show ?thesis by blast
  qed
  then obtain i where i: "x = of_int i * pow2 t" by blast
  have "x / pow2 t = of_int i" using pow2_pos [of t] by (simp add: i)
  then have "round_mag x = of_int i * pow2 t"
    by (simp add: round_mag_def Let_def t_def round_half_even_of_int)
  then show ?thesis by (simp add: i [symmetric] x_def)
qed

lemma round_mag_idem:
  assumes "0 \<le> m"
  shows "round_mag (round_mag m) = round_mag m"
proof (cases "m = 0")
  case True
  then show ?thesis by (simp add: round_mag_zero)
next
  case False
  with assms have "0 < m" by simp
  from round_mag_shape [OF this] obtain k
    where r: "round_mag m = of_int k * pow2 (ulp_exp m)" and k: "0 \<le> k" "k \<le> 2 ^ 53"
    by blast
  show ?thesis
  proof (cases "k = 0")
    case True
    then show ?thesis by (simp add: r round_mag_zero)
  next
    case False
    with k have "0 < k" by simp
    from round_mag_fixed [OF this k(2) ulp_exp_ge] show ?thesis by (simp add: r)
  qed
qed

lemma round_mag_nonneg:
  assumes "0 \<le> m"
  shows "0 \<le> round_mag m"
proof (cases "m = 0")
  case True
  then show ?thesis by (simp add: round_mag_zero)
next
  case False
  with assms have "0 < m" by simp
  from round_mag_shape [OF this] obtain k
    where "round_mag m = of_int k * pow2 (ulp_exp m)" and "0 \<le> k" by blast
  then show ?thesis using pow2_pos [of "ulp_exp m"] by simp
qed

lemma flog2_zero: "flog2 0 = 0"
  by (simp add: flog2_def)

lemma round_double_idem:
  assumes "round_double q = Fin r"
  shows "round_double r = Fin r"
proof -
  define R where "R = round_mag \<bar>q\<bar>"
  have R: "0 \<le> R" "round_mag R = R" by (simp_all add: R_def round_mag_nonneg round_mag_idem)
  from assms have nov: "\<not> 1024 \<le> flog2 R"
    by (auto simp: round_double_def Let_def R_def signed_inf_def split: if_splits)
  show ?thesis
  proof (cases "R = 0")
    case True
    with assms nov have "r = 0"
      by (auto simp: round_double_def Let_def R_def signed_zero_def split: if_splits)
    then show ?thesis
      by (simp add: round_double_def round_mag_zero flog2_zero signed_zero_def)
  next
    case False
    with R have pos: "0 < R" by simp
    from assms nov False have "r = (if q < 0 then - R else R)"
      by (auto simp: round_double_def Let_def R_def split: if_splits)
    with pos R nov False show ?thesis
      by (auto simp: round_double_def Let_def)
  qed
qed

lemma is_double_round_double: "is_double (round_double q)"
  by (cases "round_double q") (simp_all add: is_double_def round_double_idem)

lemma round_double_of_int:
  assumes "n \<noteq> 0" and "\<bar>n\<bar> \<le> 2 ^ 53"
  shows "round_double (of_int n) = Fin (of_int n)"
proof -
  define x :: rat where "x = of_int \<bar>n\<bar>"
  have x: "0 < x" using assms by (simp add: x_def)
  have "round_mag (of_int \<bar>n\<bar> * pow2 0) = of_int \<bar>n\<bar> * pow2 0"
    using assms by (intro round_mag_fixed) simp_all
  then have r: "round_mag x = x" by (simp add: x_def pow2_def)
  have "x \<le> of_int (2 ^ 53)" unfolding x_def using assms(2) by (simp only: of_int_le_iff)
  also have "\<dots> = pow2 53" by (simp add: pow2_of_nat)
  finally have "pow2 (flog2 x) \<le> pow2 53" using flog2_bounds(1) [OF x] by linarith
  then have "flog2 x \<le> 53" by (simp add: pow2_le_iff)
  with r x show ?thesis
    by (auto simp: round_double_def Let_def x_def)
qed

text \<open>Every result of an addition is a double, and subtracting zero from a double
  gives it back.\<close>

lemma round_double_zero: "round_double 0 = Fin 0"
  by (simp add: round_double_def round_mag_zero flog2_zero signed_zero_def)

lemma is_double_zero: "is_double (Fin 0)"
  by (simp add: is_double_def round_double_zero)

lemma is_double_jadd: "is_double (jadd x y)"
  by (auto simp: jadd_def is_double_def is_inf_def signed_zero_def Let_def round_double_zero
      round_double_idem split: jsnum.splits)

lemma jsub_zero: "is_double x \<Longrightarrow> jsub x (Fin 0) = x"
  by (cases x) (auto simp: jsub_def jneg_def jadd_def is_inf_def signed_zero_def is_double_def)

lemma jeq_jge: "jeq x y \<Longrightarrow> jge x y"
  by (cases x; cases y) (auto simp: jeq_def jge_def is_zero_def)

lemma jmul_zero: "x \<noteq> NaN \<Longrightarrow> \<not> is_inf x \<Longrightarrow> is_zero (jmul x (Fin 0))"
  by (simp add: jmul_def is_inf_def is_zero_def signed_zero_def)

text \<open>Integers up to \<open>2 ^ 53\<close> in magnitude are added and multiplied without rounding.\<close>

lemma is_int_numD: "is_int_num x \<Longrightarrow> \<exists>n. x = Fin (of_int n)"
  by (cases x) (auto simp: is_int_num_def)

lemma exact_step:
  assumes "\<bar>A\<bar> + \<bar>P * Q\<bar> \<le> 2 ^ 53"
  shows "jadd (Fin (of_int A)) (jmul (Fin (of_int P)) (Fin (of_int Q))) = Fin (of_int (A + P * Q))"
proof -
  have pq: "\<bar>P * Q\<bar> \<le> 2 ^ 53" and s: "\<bar>A + P * Q\<bar> \<le> 2 ^ 53" using assms by linarith+
  have m: "jmul (Fin (of_int P)) (Fin (of_int Q))
           = (if P * Q = 0 then signed_zero ((P < 0) \<noteq> (Q < 0)) else Fin (of_int (P * Q)))"
    using round_double_of_int [of "P * Q"] pq
    by (auto simp: jmul_def is_inf_def Let_def)
  show ?thesis
  proof (cases "P * Q = 0")
    case True
    then show ?thesis
      using round_double_of_int [of A] assms
      by (auto simp: m jadd_def is_inf_def signed_zero_def Let_def)
  next
    case False
    show ?thesis
    proof (cases "A + P * Q = 0")
      case True
      with False show ?thesis
        by (auto simp: m jadd_def is_inf_def signed_zero_def Let_def simp flip: of_int_mult of_int_add)
    next
      case nz: False
      have "round_double (of_int (A + P * Q)) = Fin (of_int (A + P * Q))"
        using nz s by (rule round_double_of_int)
      with False nz show ?thesis
        by (auto simp: m jadd_def is_inf_def Let_def simp flip: of_int_mult of_int_add)
    qed
  qed
qed

subsection \<open>Known values\<close>

text \<open>The literal \<^verbatim>\<open>0.1\<close> is the double \<open>3602879701896397 / 2 ^ 55\<close>;
  \<^verbatim>\<open>0.1 + 0.2\<close> is \<^verbatim>\<open>0.30000000000000004\<close>; \<open>2 ^ 53 + 1\<close> rounds back to \<open>2 ^ 53\<close>.\<close>

lemma tenth_double: "round_double (1 / 10) = Fin (3602879701896397 / 36028797018963968)"
  by code_simp

lemma tenth_plus_fifth:
  "jadd (round_double (1 / 10)) (round_double (2 / 10)) = Fin (1351079888211149 / 4503599627370496)"
  by code_simp

lemma above_two_53: "jadd (Fin 9007199254740992) (Fin 1) = Fin 9007199254740992"
  by code_simp

text \<open>A percentage is applied as \<open>total \<times> (percent / 100)\<close>, the quotient rounded first;
  in doubles this is not always \<open>(total \<times> percent) / 100\<close>: ten percent of 3 is
  \<^verbatim>\<open>0.30000000000000004\<close> the first way and \<^verbatim>\<open>0.3\<close> the second.\<close>

lemma percent_rounded_first:
  "jmul (Fin 3) (jdiv (Fin 10) (Fin 100)) = Fin (1351079888211149 / 4503599627370496)"
  "jdiv (jmul (Fin 3) (Fin 10)) (Fin 100) = Fin (5404319552844595 / 18014398509481984)"
  by code_simp+

lemma is_double_of_int: "\<bar>n\<bar> \<le> 2 ^ 53 \<Longrightarrow> is_double (Fin (of_int n))"
  using round_double_of_int [of n] by (cases "n = 0") (simp_all add: is_double_def round_double_zero)

section \<open>The accumulation\<close>

lemma reduce_foldl: "reduce xs f acc = foldl f acc xs"
  by (induction xs arbitrary: acc) simp_all

lemma reduce_items_cartTotal:
  "reduce (items c) (\<lambda>sum item. jadd sum (jmul (price item) (quantity item))) (Fin 0) = cartTotal c"
  by (simp add: reduce_foldl cartTotal_def sum_list_js_def line_value_def foldl_map)

lemma processDiscount_total_eq: "processDiscount_total c = cartTotal c"
  by (simp add: processDiscount_total_def reduce_items_cartTotal)

lemma CartTotalFormula_total_eq: "CartTotalFormula_total c = cartTotal c"
  by (simp add: CartTotalFormula_total_def reduce_items_cartTotal)

lemma PromoCodeFormula_total_eq: "PromoCodeFormula_total c = cartTotal c"
  by (simp add: PromoCodeFormula_total_def reduce_items_cartTotal)

lemma is_double_sum_list_js: "is_double (sum_list_js xs)"
  by (cases xs rule: rev_cases) (simp_all add: sum_list_js_def is_double_jadd is_double_zero)

lemma is_double_cartTotal: "is_double (cartTotal c)"
  by (simp add: cartTotal_def is_double_sum_list_js)

lemma exact_foldl:
  assumes "\<forall>item \<in> set xs. is_int_num (price item) \<and> is_int_num (quantity item)"
    and "\<bar>of_int A\<bar> + (\<Sum>item\<leftarrow>xs. \<bar>exact_value item\<bar>) \<le> 2 ^ 53"
  shows "foldl jadd (Fin (of_int A)) (map line_value xs)
         = Fin (of_int A + (\<Sum>item\<leftarrow>xs. exact_value item))"
  using assms
proof (induction xs arbitrary: A)
  case Nil
  then show ?case by simp
next
  case (Cons x xs)
  from Cons.prems(1) obtain P Q where P: "price x = Fin (of_int P)" and Q: "quantity x = Fin (of_int Q)"
    using is_int_numD by (metis list.set_intros(1))
  have ev: "exact_value x = of_int (P * Q)" by (simp add: exact_value_def P Q)
  have nn: "0 \<le> (\<Sum>item\<leftarrow>xs. \<bar>exact_value item\<bar>)" by (rule sum_list_nonneg) auto
  from Cons.prems(2)
  have b: "(of_int (\<bar>A\<bar> + \<bar>P * Q\<bar>) :: rat) + (\<Sum>item\<leftarrow>xs. \<bar>exact_value item\<bar>) \<le> 2 ^ 53"
    by (simp add: ev)
  with nn have "(of_int (\<bar>A\<bar> + \<bar>P * Q\<bar>) :: rat) \<le> of_int (2 ^ 53)" by simp
  then have st: "\<bar>A\<bar> + \<bar>P * Q\<bar> \<le> 2 ^ 53" by (simp only: of_int_le_iff)
  have "\<bar>of_int (A + P * Q) :: rat\<bar> \<le> of_int (\<bar>A\<bar> + \<bar>P * Q\<bar>)"
    by (simp only: of_int_abs [symmetric] of_int_le_iff)
  with b have b': "\<bar>of_int (A + P * Q) :: rat\<bar> + (\<Sum>item\<leftarrow>xs. \<bar>exact_value item\<bar>) \<le> 2 ^ 53"
    by linarith
  have "foldl jadd (Fin (of_int A)) (map line_value (x # xs))
        = foldl jadd (Fin (of_int (A + P * Q))) (map line_value xs)"
    by (simp add: line_value_def P Q exact_step [OF st])
  also have "\<dots> = Fin (of_int (A + P * Q) + (\<Sum>item\<leftarrow>xs. exact_value item))"
    using Cons.prems(1) b' by (intro Cons.IH) simp_all
  finally show ?case by (simp add: ev)
qed

lemma cartTotal_exact:
  assumes "\<forall>item \<in> set (items c). is_int_num (price item) \<and> is_int_num (quantity item)"
    and "(\<Sum>item\<leftarrow>items c. \<bar>exact_value item\<bar>) \<le> 2 ^ 53"
  shows "cartTotal c = Fin (\<Sum>item\<leftarrow>items c. exact_value item)"
  using exact_foldl [of "items c" 0] assms by (simp add: cartTotal_def sum_list_js_def)

lemma sum_list_mset_cong:
  fixes f :: "'a \<Rightarrow> rat"
  assumes "mset xs = mset ys"
  shows "(\<Sum>x\<leftarrow>xs. f x) = (\<Sum>x\<leftarrow>ys. f x)"
proof -
  have "(\<Sum>x\<leftarrow>xs. f x) = sum_mset (image_mset f (mset xs))"
    by (simp flip: sum_mset_sum_list)
  also have "\<dots> = sum_mset (image_mset f (mset ys))" by (simp add: assms)
  also have "\<dots> = (\<Sum>x\<leftarrow>ys. f x)" by (simp flip: sum_mset_sum_list)
  finally show ?thesis .
qed

lemma find_first:
  "\<forall>i \<in> set pre. \<not> P i \<Longrightarrow> P x \<Longrightarrow> List.find P (pre @ x # post) = Some x"
  by (induction pre) simp_all

lemma find_none: "\<forall>i \<in> set xs. \<not> P i \<Longrightarrow> List.find P xs = None"
  by (induction xs) simp_all

lemma find_quantity_cong:
  "map (\<lambda>i. (productId i, quantity i)) xs = map (\<lambda>i. (productId i, quantity i)) ys \<Longrightarrow>
   map_option quantity (List.find (\<lambda>item. productId item = pid) xs)
   = map_option quantity (List.find (\<lambda>item. productId item = pid) ys)"
proof (induction xs arbitrary: ys)
  case Nil
  then show ?case by simp
next
  case (Cons x xs)
  then obtain y ys' where "ys = y # ys'" by (cases ys) auto
  with Cons show ?case by auto
qed

section \<open>The sample run\<close>

lemma cart_total_250: "cartTotal cart = Fin 250"
  by code_simp

lemma ProductFormula_sample: "ProductFormula ''A1'' (Fin 10) cart = Fin 20"
  by code_simp

text \<open>
  Claim C2. For the cart with the items (A1, price 100, quantity 2) and (B2, price 50,
  quantity 1) and the promo code \<^verbatim>\<open>VIP20\<close>, and the formulas
  \<^verbatim>\<open>CartTotalFormula(150, 5)\<close>, \<^verbatim>\<open>ProductFormula('A1', 10)\<close> and \<^verbatim>\<open>PromoCodeFormula\<close>
  with the table SUMMER10: 10, VIP20: 20, \<^verbatim>\<open>processDiscount\<close> returns total 250,
  discount 82.5 and final 167.5; the three formulas contribute 12.5, 20 and 50.
\<close>

theorem sample_scenario:
  "processDiscount Formulas cart
     = \<lparr>total = Fin 250, discount = Fin (165 / 2), final = Fin (335 / 2)\<rparr>
   \<and> CartTotalFormula (Fin 150) (Fin 5) cart = Fin (25 / 2)
   \<and> ProductFormula ''A1'' (Fin 10) cart = Fin 20
   \<and> PromoCodeFormula cart = Fin 50"
  by code_simp

section \<open>The result triple\<close>

text \<open>
  Claim C1. For every cart and every list of formulas, \<^verbatim>\<open>processDiscount\<close> returns a
  triple whose \<open>total\<close> is the sum of price \<times> quantity over the items of the cart, whose
  \<open>discount\<close> is \<^verbatim>\<open>discountCalculation(cart)\<close> and whose \<open>final\<close> is \<open>total\<close> minus
  \<open>discount\<close>.
\<close>

theorem processDiscount_triple:
  "total (processDiscount fs c) = cartTotal c
   \<and> discount (processDiscount fs c) = discountCalculation fs c
   \<and> final (processDiscount fs c)
       = jsub (total (processDiscount fs c)) (discount (processDiscount fs c))"
  by (simp add: processDiscount_def Let_def processDiscount_total_eq)

text \<open>
  Claim C3. For every cart and every list of formulas, of any length,
  \<^verbatim>\<open>discountCalculation(cart)\<close> is the sum of \<^verbatim>\<open>process(cart)\<close> over the formulas in
  their order; with no formula the discount is \<open>0\<close> and \<open>final\<close> equals \<open>total\<close>.
\<close>

theorem discountCalculation_sum:
  "discountCalculation fs c = sum_list_js (map (\<lambda>f. f c) fs)
   \<and> discount (processDiscount [] c) = Fin 0
   \<and> final (processDiscount [] c) = total (processDiscount [] c)"
  by (simp add: discountCalculation_def reduce_foldl sum_list_js_def foldl_map
      processDiscount_def Let_def processDiscount_total_eq jsub_zero is_double_cartTotal)

text \<open>
  Claim C7. The final price is not clamped: there are a cart and a list of formulas for
  which the discount exceeds the total and \<open>final\<close> is negative. The sample cart with the
  single formula \<^verbatim>\<open>ProductFormula('A1', 200)\<close> has total 250, discount 400 and
  final -150.
\<close>

theorem no_clamping:
  "\<exists>fs c. jlt (total (processDiscount fs c)) (discount (processDiscount fs c))
     \<and> jlt (final (processDiscount fs c)) (Fin 0)"
proof -
  have "processDiscount [ProductFormula ''A1'' (Fin 200)] cart
        = \<lparr>total = Fin 250, discount = Fin 400, final = Fin (- 150)\<rparr>"
    by code_simp
  then have "jlt (total (processDiscount [ProductFormula ''A1'' (Fin 200)] cart))
                 (discount (processDiscount [ProductFormula ''A1'' (Fin 200)] cart))
     \<and> jlt (final (processDiscount [ProductFormula ''A1'' (Fin 200)] cart)) (Fin 0)"
    by simp
  then show ?thesis by blast
qed

text \<open>
  Claim C8. For every cart, the total computed inside \<^verbatim>\<open>processDiscount\<close>, the one
  computed inside \<^verbatim>\<open>CartTotalFormula.process\<close> and the one computed inside
  \<^verbatim>\<open>PromoCodeFormula.process\<close> are the same double, and it is the \<open>total\<close> that
  \<^verbatim>\<open>processDiscount\<close> returns.
\<close>

theorem totals_agree:
  "processDiscount_total c = CartTotalFormula_total c
   \<and> CartTotalFormula_total c = PromoCodeFormula_total c
   \<and> total (processDiscount fs c) = processDiscount_total c"
  by (simp add: processDiscount_def Let_def processDiscount_total_def
      CartTotalFormula_total_def PromoCodeFormula_total_def)

section \<open>The order of the items\<close>

lemma tenths_cart_doubles:
  "\<forall>item \<in> set (items tenths_cart). is_double (price item) \<and> is_double (quantity item)"
  using is_double_of_int [of 1] by (simp add: tenths_cart_def is_double_round_double)

lemma tenths_totals:
  "total (processDiscount [] tenths_cart) = Fin (1351079888211149 / 2251799813685248)"
  "total (processDiscount [] tenths_cart_reversed) = Fin (5404319552844595 / 9007199254740992)"
  by code_simp+

text \<open>
  Claim C9 as stated, that the total is the same for every permutation of the items, fails:
  the prices \<^verbatim>\<open>0.1\<close>, \<^verbatim>\<open>0.2\<close>, \<^verbatim>\<open>0.3\<close> with quantity 1 add up to
  \<^verbatim>\<open>0.6000000000000001\<close> in this order and to \<^verbatim>\<open>0.6\<close> in the opposite one.
\<close>

theorem total_order_counterexample:
  "mset (items tenths_cart_reversed) = mset (items tenths_cart)
   \<and> total (processDiscount [] tenths_cart_reversed) \<noteq> total (processDiscount [] tenths_cart)"
  by (simp add: tenths_totals) (simp add: tenths_cart_reversed_def)

text \<open>
  Claim C9, amended. For every cart whose prices and quantities are integers with
  \<open>\<Sigma> |price \<times> quantity| \<le> 2 ^ 53\<close>, and every permutation of its items, the total that
  \<^verbatim>\<open>processDiscount\<close> computes is the same: it is the exact sum \<open>\<Sigma> price \<times> quantity\<close>.
\<close>

theorem total_order_independent_exact:
  assumes "mset (items c2) = mset (items c1)"
    and "\<forall>item \<in> set (items c1). is_int_num (price item) \<and> is_int_num (quantity item)"
    and "(\<Sum>item\<leftarrow>items c1. \<bar>exact_value item\<bar>) \<le> 2 ^ 53"
  shows "total (processDiscount fs c2) = total (processDiscount fs c1)
         \<and> total (processDiscount fs c1) = Fin (\<Sum>item\<leftarrow>items c1. exact_value item)"
proof -
  have s: "set (items c2) = set (items c1)" using assms(1) by (rule mset_eq_setD)
  have a: "(\<Sum>item\<leftarrow>items c2. \<bar>exact_value item\<bar>) = (\<Sum>item\<leftarrow>items c1. \<bar>exact_value item\<bar>)"
    using assms(1) by (rule sum_list_mset_cong)
  have e: "(\<Sum>item\<leftarrow>items c2. exact_value item) = (\<Sum>item\<leftarrow>items c1. exact_value item)"
    using assms(1) by (rule sum_list_mset_cong)
  have "cartTotal c1 = Fin (\<Sum>item\<leftarrow>items c1. exact_value item)"
    using assms(2,3) by (rule cartTotal_exact)
  moreover have "cartTotal c2 = Fin (\<Sum>item\<leftarrow>items c2. exact_value item)"
    using assms(2,3) by (intro cartTotal_exact) (simp_all add: s a)
  ultimately show ?thesis
    by (simp add: processDiscount_def Let_def processDiscount_total_eq e)
qed

theorem total_order_independent_exact_witness:
  "total (processDiscount Formulas (cart\<lparr>items := rev (items cart)\<rparr>))
     = total (processDiscount Formulas cart)
   \<and> total (processDiscount Formulas cart) = Fin 250"
proof -
  have 1: "mset (items (cart\<lparr>items := rev (items cart)\<rparr>)) = mset (items cart)"
    by simp
  have 2: "\<forall>item \<in> set (items cart). is_int_num (price item) \<and> is_int_num (quantity item)"
    by (simp add: cart_def is_int_num_def)
  have 3: "(\<Sum>item\<leftarrow>items cart. \<bar>exact_value item\<bar>) \<le> 2 ^ 53"
    by (simp add: cart_def exact_value_def)
  have "(\<Sum>item\<leftarrow>items cart. exact_value item) = 250"
    by (simp add: cart_def exact_value_def)
  with total_order_independent_exact [OF 1 2 3, of Formulas] show ?thesis
    by simp
qed

section \<open>The three formulas\<close>

text \<open>
  Claim C4. For every cart, \<^verbatim>\<open>CartTotalFormula(threshold, discountPercent).process\<close>
  computes the cart total as the sum of price \<times> quantity over the items and returns the
  total times \<open>discountPercent / 100\<close> when the total is at least the threshold, and \<open>0\<close>
  otherwise; a total equal to the threshold qualifies.
\<close>

theorem CartTotalFormula_process:
  "CartTotalFormula threshold discountPercent c
     = (if jge (cartTotal c) threshold
        then jmul (cartTotal c) (jdiv discountPercent (Fin 100)) else Fin 0)
   \<and> (jeq (cartTotal c) threshold \<longrightarrow>
        CartTotalFormula threshold discountPercent c
          = jmul (cartTotal c) (jdiv discountPercent (Fin 100)))"
  by (simp add: CartTotalFormula_def Let_def CartTotalFormula_total_eq jeq_jge)

theorem CartTotalFormula_process_witness:
  "jeq (cartTotal cart) (Fin 250)
   \<and> CartTotalFormula (Fin 250) (Fin 5) cart = Fin (25 / 2)
   \<and> CartTotalFormula (Fin 251) (Fin 5) cart = Fin 0"
proof -
  have h: "jeq (cartTotal cart) (Fin 250)"
    by (simp add: cart_total_250 jeq_def)
  from CartTotalFormula_process [of "Fin 250" "Fin 5" cart] h
  have "CartTotalFormula (Fin 250) (Fin 5) cart = jmul (cartTotal cart) (jdiv (Fin 5) (Fin 100))"
    by blast
  moreover have "jmul (Fin 250) (jdiv (Fin 5) (Fin 100)) = Fin (25 / 2)"
    by code_simp
  moreover have "\<not> jge (Fin 250) (Fin 251)"
    by (simp add: jge_def)
  with CartTotalFormula_process [of "Fin 251" "Fin 5" cart]
  have "CartTotalFormula (Fin 251) (Fin 5) cart = Fin 0"
    by (simp add: cart_total_250)
  ultimately show ?thesis
    using h by (simp add: cart_total_250)
qed

text \<open>
  Claim C6. For every cart, \<^verbatim>\<open>ProductFormula(productId, fixedDiscount).process\<close> returns
  \<open>fixedDiscount\<close> times the quantity of the first item whose product id is the configured
  one, whatever follows that item in the cart, and \<open>0\<close> when no item has that id.
\<close>

theorem ProductFormula_first_match:
  "(items c = pre @ item # post \<and> (\<forall>i \<in> set pre. productId i \<noteq> pid) \<and> productId item = pid
      \<longrightarrow> ProductFormula pid fixedDiscount c = jmul fixedDiscount (quantity item))
   \<and> ((\<forall>i \<in> set (items c). productId i \<noteq> pid) \<longrightarrow> ProductFormula pid fixedDiscount c = Fin 0)"
  by (auto simp: ProductFormula_def find_first find_none)

theorem ProductFormula_first_match_witness:
  "ProductFormula ''A1'' (Fin 10) duplicate_cart = jmul (Fin 10) (Fin 2)
   \<and> ProductFormula ''Z9'' (Fin 10) duplicate_cart = Fin 0"
proof -
  have "ProductFormula ''A1'' (Fin 10) duplicate_cart = jmul (Fin 10) (Fin 2)"
    using ProductFormula_first_match
      [where c = duplicate_cart and pid = "''A1''" and fixedDiscount = "Fin 10"
         and pre = "[\<lparr>productId = ''B2'', name = ''Hat'', price = Fin 50, quantity = Fin 1\<rparr>]"
         and item = "\<lparr>productId = ''A1'', name = ''Shoes'', price = Fin 100, quantity = Fin 2\<rparr>"
         and post = "[\<lparr>productId = ''A1'', name = ''Shoes'', price = Fin 100, quantity = Fin 5\<rparr>]"]
    by (simp add: duplicate_cart_def)
  moreover have "ProductFormula ''Z9'' (Fin 10) duplicate_cart = Fin 0"
    using ProductFormula_first_match
      [where c = duplicate_cart and pid = "''Z9''" and fixedDiscount = "Fin 10"]
    by (simp add: duplicate_cart_def)
  ultimately show ?thesis by simp
qed

text \<open>
  Claim C10. The result of \<^verbatim>\<open>ProductFormula\<close> does not depend on any price: two carts
  with the same sequence of (product id, quantity) pairs get the same value from
  \<^verbatim>\<open>ProductFormula(productId, fixedDiscount).process\<close>, whatever their prices, names and
  promo codes are. So the discount is not capped by the value of the matched item.
\<close>

theorem ProductFormula_price_independent:
  assumes "map (\<lambda>i. (productId i, quantity i)) (items c1)
           = map (\<lambda>i. (productId i, quantity i)) (items c2)"
  shows "ProductFormula pid fixedDiscount c1 = ProductFormula pid fixedDiscount c2"
  using find_quantity_cong [OF assms, of pid]
  by (auto simp: ProductFormula_def split: option.splits)

text \<open>With every price lowered to \<open>1\<close> the sample cart is worth 3 and still gets 20 off.\<close>

theorem ProductFormula_price_independent_witness:
  "ProductFormula ''A1'' (Fin 10) cheap_cart = Fin 20 \<and> cartTotal cheap_cart = Fin 3"
proof -
  have "map (\<lambda>i. (productId i, quantity i)) (items cheap_cart)
        = map (\<lambda>i. (productId i, quantity i)) (items cart)"
    by (simp add: cheap_cart_def cart_def)
  from ProductFormula_price_independent [OF this, of "''A1''" "Fin 10"]
  have "ProductFormula ''A1'' (Fin 10) cheap_cart = Fin 20"
    by (simp add: ProductFormula_sample)
  moreover have "cartTotal cheap_cart = Fin 3"
    by code_simp
  ultimately show ?thesis by simp
qed

subsection \<open>The promo code\<close>

text \<open>A code of the table gives its percentage of the total; a code that is neither in the
  table nor a property name of \<^verbatim>\<open>Object.prototype\<close>, an empty and an absent code give
  the total times zero, which is a zero for every finite total.\<close>

lemma PromoCodeFormula_known:
  assumes "map_of promoCodes code = Some p" and "promoCode c = Some code"
  shows "PromoCodeFormula c = jmul (cartTotal c) (jdiv p (Fin 100))"
  using assms
  by (auto simp: PromoCodeFormula_def PromoCodeFormula_percent_def PromoCodeFormula_total_eq
      promoCodes_def get_property_def js_or_def str_or_def is_zero_def Let_def
      split: if_splits)

lemma PromoCodeFormula_unrecognized:
  assumes "map_of promoCodes (str_or (promoCode c) []) = None"
    and "str_or (promoCode c) [] \<notin> set object_prototype_keys"
  shows "PromoCodeFormula c = jmul (cartTotal c) (Fin 0)"
  using assms
  by (simp add: PromoCodeFormula_def PromoCodeFormula_percent_def PromoCodeFormula_total_eq
      get_property_def js_or_def is_zero_def Let_def jdiv_def is_inf_def signed_zero_def)

lemma PromoCodeFormula_absent:
  assumes "promoCode c = None \<or> promoCode c = Some []"
  shows "PromoCodeFormula c = jmul (cartTotal c) (Fin 0)"
proof -
  from assms have "str_or (promoCode c) [] = []" by (auto simp: str_or_def)
  then show ?thesis
    by (intro PromoCodeFormula_unrecognized) (simp_all add: promoCodes_def object_prototype_keys_def)
qed

text \<open>
  Claim C5 says that an unknown promo code counts as 0 percent and yields exactly \<open>0\<close>.
  The code \<^verbatim>\<open>constructor\<close> is not in the table, but \<^verbatim>\<open>this.promoCodes['constructor']\<close>
  is the function inherited from \<^verbatim>\<open>Object.prototype\<close>: it is truthy, so \<^verbatim>\<open>|| 0\<close> keeps
  it, dividing it by 100 gives \<open>NaN\<close>, and the formula, the discount and the final price
  are \<open>NaN\<close>.
\<close>

theorem PromoCodeFormula_inherited_key:
  "PromoCodeFormula_percent (cart\<lparr>promoCode := Some ''constructor''\<rparr>) = Obj
   \<and> PromoCodeFormula (cart\<lparr>promoCode := Some ''constructor''\<rparr>) = NaN
   \<and> processDiscount Formulas (cart\<lparr>promoCode := Some ''constructor''\<rparr>)
       = \<lparr>total = Fin 250, discount = NaN, final = NaN\<rparr>"
  by code_simp

end
